theory Spec2Isabelle
  imports Main "HOL-Library.Char_ord" "HOL-Library.List_Lexorder"
begin

section \<open>scripts/gen\_builtins.py\<close>

text \<open>
  The script generates \<^verbatim>\<open>pkl/Builtins.pkl\<close> and \<^verbatim>\<open>pkl/builtins_meta.json\<close> from the
  files \<^verbatim>\<open>pkl/builtins/*.pkl\<close>.  Python strings are modelled as \<^typ>\<open>string\<close>; the order
  of \<^verbatim>\<open>sorted\<close> on strings is the lexicographic order of \<^typ>\<open>char list\<close>.
\<close>

subsection \<open>The header\<close>

definition HEADER :: string where
  \<open>HEADER =
     ''// THIS FILE IS GENERATED: Run 'mise run pkl:gen' to generate.\<newline>'' @
     ''\<newline>'' @
     ''import* "builtins/*.pkl" as Builtins\<newline>'' @
     ''\<newline>'' @
     ''/// Indicator for detecting if a builtin is relevant to a project\<newline>'' @
     ''class ProjectIndicator {\<newline>'' @
     ''  /// Exact file path to check for existence\<newline>'' @
     ''  file: String?\<newline>'' @
     ''\<newline>'' @
     ''  /// Glob pattern to match any file\<newline>'' @
     ''  glob: String?\<newline>'' @
     ''\<newline>'' @
     ''  /// Content pattern to grep for (requires file to be set)\<newline>'' @
     ''  contains: String?\<newline>'' @
     ''}\<newline>'' @
     ''\<newline>'' @
     ''/// Internal class for annotating hk builtins for documentation generation\<newline>'' @
     ''class meta extends Annotation {\<newline>'' @
     ''  /// Category for documentation grouping (e.g., "JavaScript/TypeScript", "Python", "Rust")\<newline>'' @
     ''  category: String?\<newline>'' @
     ''\<newline>'' @
     ''  /// Human-readable description of the step for documentation\<newline>'' @
     ''  description: String?\<newline>'' @
     ''\<newline>'' @
     ''  /// Project indicators for auto-detection\<newline>'' @
     ''  project_indicators: Listing<ProjectIndicator>?\<newline>'' @
     ''}\<newline>'' @
     ''\<newline>''\<close>

subsection \<open>Path and string functions of the standard library\<close>

text \<open>\<^verbatim>\<open>str.rfind\<close> for a single character: the highest index holding it, or \<open>-1\<close>.\<close>

definition rfind :: "char \<Rightarrow> string \<Rightarrow> int" where
  "rfind c p =
     (if c \<in> set p
      then int (length p) - 1 - int (length (takeWhile (\<lambda>x. x \<noteq> c) (rev p)))
      else - 1)"

text \<open>\<^verbatim>\<open>posixpath.basename\<close>: \<^verbatim>\<open>i = p.rfind('/') + 1; return p[i:]\<close>.\<close>

definition basename :: "string \<Rightarrow> string" where
  "basename p = drop (nat (rfind (CHR ''/'') p + 1)) p"

text \<open>
  \<^verbatim>\<open>posixpath.splitext\<close> (\<^verbatim>\<open>genericpath._splitext\<close>): the extension starts at the last dot
  of the last path component, unless only dots precede that dot in the component.
\<close>

definition splitext :: "string \<Rightarrow> string \<times> string" where
  "splitext p =
     (let sepIndex = rfind (CHR ''/'') p;
          dotIndex = rfind (CHR ''.'') p
      in if dotIndex > sepIndex \<and>
            list_ex (\<lambda>i. p ! i \<noteq> CHR ''.'') [nat (sepIndex + 1)..<nat dotIndex]
         then (take (nat dotIndex) p, drop (nat dotIndex) p)
         else (p, []))"

text \<open>\<^verbatim>\<open>str.replace\<close> for single characters: every occurrence is replaced.\<close>

definition str_replace :: "char \<Rightarrow> char \<Rightarrow> string \<Rightarrow> string" where
  "str_replace old new s = map (\<lambda>c. if c = old then new else c) s"

definition endswith :: "string \<Rightarrow> string \<Rightarrow> bool" where
  "endswith s suf = (length suf \<le> length s \<and> drop (length s - length suf) s = suf)"

subsection \<open>\<^verbatim>\<open>glob.glob("pkl/builtins/*.pkl")\<close>\<close>

text \<open>
  The directory is given by the names \<^verbatim>\<open>os.listdir\<close> returns, in the order it returns them.
  \<^verbatim>\<open>glob\<close> drops the names that start with a dot (the pattern does not), keeps those that
  \<^verbatim>\<open>fnmatch\<close> matches against \<^verbatim>\<open>*.pkl\<close>, and joins each to the directory.
\<close>

definition ishidden :: "string \<Rightarrow> bool" where
  "ishidden n = (case n of [] \<Rightarrow> False | c # _ \<Rightarrow> c = CHR ''.'')"

definition fnmatch_pkl :: "string \<Rightarrow> bool" where
  "fnmatch_pkl n = endswith n ''.pkl''"

definition is_fragment :: "string \<Rightarrow> bool" where
  "is_fragment n = (\<not> ishidden n \<and> fnmatch_pkl n)"

definition glob_builtins :: "string list \<Rightarrow> string list" where
  "glob_builtins names = map (\<lambda>n. ''pkl/builtins/'' @ n) (filter is_fragment names)"

subsection \<open>The aggregator: \<^verbatim>\<open>pkl/Builtins.pkl\<close> as written before formatting\<close>

definition filename_of :: "string \<Rightarrow> string" where
  "filename_of filepath = fst (splitext (basename filepath))"

definition identifier_of :: "string \<Rightarrow> string" where
  "identifier_of filepath = str_replace (CHR ''-'') (CHR ''_'') (filename_of filepath)"

definition binding_line :: "string \<Rightarrow> string" where
  \<open>binding_line filepath =
     identifier_of filepath @ '' = Builtins["builtins/'' @ filename_of filepath @
     ''.pkl"].'' @ identifier_of filepath @ ''\<newline>''\<close>

definition builtins_pkl_text :: "string list \<Rightarrow> string" where
  "builtins_pkl_text names = HEADER @ concat (map binding_line (sort (glob_builtins names)))"

text \<open>
  The binding line in the words of the specification, for a fragment named \<open>n\<close>: the stem is
  \<open>n\<close> without its last four characters, the identifier is the stem with hyphens replaced.
\<close>

definition spec_stem :: "string \<Rightarrow> string" where
  "spec_stem n = take (length n - 4) n"

definition spec_identifier :: "string \<Rightarrow> string" where
  "spec_identifier n = map (\<lambda>c. if c = CHR ''-'' then CHR ''_'' else c) (spec_stem n)"

definition spec_line :: "string \<Rightarrow> string" where
  \<open>spec_line n =
     spec_identifier n @ '' = Builtins["builtins/'' @ spec_stem n @ ''.pkl"].'' @
     spec_identifier n @ ''\<newline>''\<close>

subsection \<open>Python values and the dynamic operations the script applies to them\<close>

text \<open>
  A value as \<^verbatim>\<open>json.loads\<close> returns it.  A dict is the list of its items in insertion
  order (its keys are distinct, and \<^const>\<open>map_of\<close> is the lookup); a float is kept by its
  \<^verbatim>\<open>repr\<close>, the only thing the script ever needs of it.
\<close>

datatype pyval =
    PNone
  | PBool bool
  | PInt int
  | PFloat string
  | PStr string
  | PList "pyval list"
  | PDict "(string \<times> pyval) list"

datatype exn = AttributeError | TypeError | KeyError | ValueError | OSError

definition bind_exn :: "exn + 'a \<Rightarrow> ('a \<Rightarrow> exn + 'b) \<Rightarrow> exn + 'b" where
  "bind_exn m f = (case m of Inl e \<Rightarrow> Inl e | Inr v \<Rightarrow> f v)"

text \<open>\<^verbatim>\<open>obj.get(key, dflt)\<close>: only a dict has the method.\<close>

definition py_get :: "pyval \<Rightarrow> string \<Rightarrow> pyval \<Rightarrow> exn + pyval" where
  "py_get obj key dflt =
     (case obj of
        PDict d \<Rightarrow> Inr (case map_of d key of Some v \<Rightarrow> v | None \<Rightarrow> dflt)
      | _ \<Rightarrow> Inl AttributeError)"

text \<open>\<^verbatim>\<open>obj.items()\<close>.\<close>

definition py_items :: "pyval \<Rightarrow> exn + (string \<times> pyval) list" where
  "py_items obj = (case obj of PDict d \<Rightarrow> Inr d | _ \<Rightarrow> Inl AttributeError)"

text \<open>
  \<^verbatim>\<open>for ann in obj\<close>: a list gives its elements, a dict its keys, a string its characters
  as strings of length one; nothing else is iterable.
\<close>

definition py_iter :: "pyval \<Rightarrow> exn + pyval list" where
  "py_iter obj =
     (case obj of
        PList xs \<Rightarrow> Inr xs
      | PDict d \<Rightarrow> Inr (map (\<lambda>kv. PStr (fst kv)) d)
      | PStr s \<Rightarrow> Inr (map (\<lambda>c. PStr [c]) s)
      | _ \<Rightarrow> Inl TypeError)"

definition is_substring :: "string \<Rightarrow> string \<Rightarrow> bool" where
  "is_substring k s = list_ex (\<lambda>i. take (length k) (drop i s) = k) [0..<Suc (length s)]"

text \<open>
  \<^verbatim>\<open>key in obj\<close> for a string \<open>key\<close>: a key of a dict, an element of a list, a substring of a
  string; a \<^verbatim>\<open>TypeError\<close> for every other value.
\<close>

definition py_contains :: "string \<Rightarrow> pyval \<Rightarrow> exn + bool" where
  "py_contains key obj =
     (case obj of
        PDict d \<Rightarrow> Inr (map_of d key \<noteq> None)
      | PList xs \<Rightarrow> Inr (List.member xs (PStr key))
      | PStr s \<Rightarrow> Inr (is_substring key s)
      | _ \<Rightarrow> Inl TypeError)"

text \<open>\<^verbatim>\<open>obj[key]\<close> for a string \<open>key\<close>: only a dict can be indexed by a string.\<close>

definition py_getitem :: "pyval \<Rightarrow> string \<Rightarrow> exn + pyval" where
  "py_getitem obj key =
     (case obj of
        PDict d \<Rightarrow> (case map_of d key of Some v \<Rightarrow> Inr v | None \<Rightarrow> Inl KeyError)
      | _ \<Rightarrow> Inl TypeError)"

subsection \<open>Metadata extraction for one fragment\<close>

text \<open>
  The dict appended to \<^verbatim>\<open>entries\<close>, with a field for each of its keys \<^verbatim>\<open>name\<close>,
  \<^verbatim>\<open>category\<close>, \<^verbatim>\<open>description\<close>, \<^verbatim>\<open>project_indicators\<close>.
\<close>

record entry =
  e_name :: string
  e_category :: pyval
  e_description :: pyval
  e_project_indicators :: "pyval list"

text \<open>
  The body of \<^verbatim>\<open>for ann in prop.get("annotations", [])\<close>, on the three local variables
  \<^verbatim>\<open>category\<close>, \<^verbatim>\<open>description\<close>, \<^verbatim>\<open>project_indicators\<close>.
\<close>

definition scan_annotation ::
  "pyval \<times> pyval \<times> pyval list \<Rightarrow> pyval \<Rightarrow> exn + (pyval \<times> pyval \<times> pyval list)" where
  "scan_annotation vars ann =
     (case vars of (category, description, project_indicators) \<Rightarrow>
        bind_exn (py_contains ''category'' ann) (\<lambda>has_category.
        bind_exn (if has_category then py_getitem ann ''category'' else Inr category)
          (\<lambda>category.
        bind_exn (py_contains ''description'' ann) (\<lambda>has_description.
        bind_exn (if has_description then py_getitem ann ''description'' else Inr description)
          (\<lambda>description.
        bind_exn (py_contains ''project_indicators'' ann) (\<lambda>has_indicators.
        bind_exn (if has_indicators
                  then bind_exn (py_getitem ann ''project_indicators'') (\<lambda>indicators.
                         Inr (case indicators of PList xs \<Rightarrow> xs | _ \<Rightarrow> project_indicators))
                  else Inr project_indicators)
          (\<lambda>project_indicators.
        Inr (category, description, project_indicators))))))))"

fun scan_annotations ::
  "pyval \<times> pyval \<times> pyval list \<Rightarrow> pyval list \<Rightarrow> exn + (pyval \<times> pyval \<times> pyval list)" where
  "scan_annotations vars [] = Inr vars"
| "scan_annotations vars (ann # anns) =
     (case scan_annotation vars ann of
        Inl e \<Rightarrow> Inl e
      | Inr vars' \<Rightarrow> scan_annotations vars' anns)"

text \<open>
  The second \<^verbatim>\<open>try\<close> block after \<^verbatim>\<open>json.loads\<close>: \<open>Inl\<close> is an exception, \<open>Inr None\<close> is
  an empty \<^verbatim>\<open>props.items()\<close> (the loop body never runs), \<open>Inr (Some e)\<close> is the entry
  appended before the \<^verbatim>\<open>break\<close>.
\<close>

definition extract_entry :: "pyval \<Rightarrow> exn + entry option" where
  "extract_entry data =
     bind_exn (py_get data ''moduleClass'' (PDict [])) (\<lambda>module_class.
     bind_exn (py_get module_class ''properties'' (PDict [])) (\<lambda>props.
     bind_exn (py_items props) (\<lambda>items.
       case items of
         [] \<Rightarrow> Inr None
       | (name, prop) # _ \<Rightarrow>
           bind_exn (py_get prop ''annotations'' (PList [])) (\<lambda>annotations.
           bind_exn (py_iter annotations) (\<lambda>anns.
           bind_exn (scan_annotations (PStr [], PStr [], []) anns) (\<lambda>vars.
             case vars of (category, description, project_indicators) \<Rightarrow>
               Inr (Some \<lparr>e_name = name, e_category = category, e_description = description,
                          e_project_indicators = project_indicators\<rparr>)))))))"

text \<open>
  What \<^verbatim>\<open>subprocess.run\<close> does: it raises (timeout, missing executable, undecodable
  output), or it returns the exit status and the captured standard output.
\<close>

datatype proc_result = Raised exn | Completed int string

text \<open>
  One iteration of the metadata loop; \<open>None\<close> is \<^verbatim>\<open>continue\<close> without an entry.
  \<^verbatim>\<open>json.loads\<close> is the parameter \<open>loads\<close>.
\<close>

definition fragment_entry :: "(string \<Rightarrow> exn + pyval) \<Rightarrow> proc_result \<Rightarrow> entry option" where
  "fragment_entry loads res =
     (case res of
        Raised e \<Rightarrow> None
      | Completed returncode stdout \<Rightarrow>
          if returncode \<noteq> 0 then None
          else (case bind_exn (loads stdout) extract_entry of
                  Inl e \<Rightarrow> None
                | Inr r \<Rightarrow> r))"

text \<open>
  The loop over the sorted paths; \<open>reflect\<close> is the run of \<^verbatim>\<open>pkl eval\<close> on a path (the other
  arguments of the command, with the URI of \<^verbatim>\<open>scripts/reflect.pkl\<close>, are the same for every
  path of a run).
\<close>

fun extract_all ::
  "(string \<Rightarrow> exn + pyval) \<Rightarrow> (string \<Rightarrow> proc_result) \<Rightarrow> string list \<Rightarrow> entry list \<Rightarrow> entry list"
where
  "extract_all loads reflect [] entries = entries"
| "extract_all loads reflect (filepath # rest) entries =
     (case fragment_entry loads (reflect filepath) of
        None \<Rightarrow> extract_all loads reflect rest entries
      | Some e \<Rightarrow> extract_all loads reflect rest (entries @ [e]))"

definition metadata_entries ::
  "(string \<Rightarrow> exn + pyval) \<Rightarrow> (string \<Rightarrow> proc_result) \<Rightarrow> string list \<Rightarrow> entry list" where
  "metadata_entries loads reflect names =
     extract_all loads reflect (sort (glob_builtins names)) []"

subsection \<open>\<^verbatim>\<open>json.dump(entries, f, indent=None)\<close>\<close>

definition digit_char :: "nat \<Rightarrow> char" where
  "digit_char d = char_of (48 + d)"

function show_nat :: "nat \<Rightarrow> string" where
  "show_nat n = (if n < 10 then [digit_char n] else show_nat (n div 10) @ [digit_char (n mod 10)])"
  by pat_completeness auto
termination
  by (relation "measure (\<lambda>n. n)") auto

declare show_nat.simps [simp del]

definition show_int :: "int \<Rightarrow> string" where
  "show_int i = (if i < 0 then ''-'' @ show_nat (nat (- i)) else show_nat (nat i))"

fun join :: "string \<Rightarrow> string list \<Rightarrow> string" where
  "join sep [] = []"
| "join sep [x] = x"
| "join sep (x # y # ys) = x @ sep @ join sep (y # ys)"

text \<open>
  The encoder with its default separators \<^verbatim>\<open>', '\<close> and \<^verbatim>\<open>': '\<close>.  The escaping of a string
  (\<^verbatim>\<open>encode_basestring_ascii\<close>) is the parameter \<open>esc\<close>.
\<close>

fun dumps :: "(string \<Rightarrow> string) \<Rightarrow> pyval \<Rightarrow> string" where
  "dumps esc PNone = ''null''"
| "dumps esc (PBool b) = (if b then ''true'' else ''false'')"
| "dumps esc (PInt i) = show_int i"
| "dumps esc (PFloat r) = r"
| "dumps esc (PStr s) = esc s"
| "dumps esc (PList xs) = ''['' @ join '', '' (map (dumps esc) xs) @ '']''"
| "dumps esc (PDict kvs) =
     ''{'' @ join '', '' (map (\<lambda>kv. esc (fst kv) @ '': '' @ dumps esc (snd kv)) kvs) @ ''}''"

definition entry_dict :: "entry \<Rightarrow> pyval" where
  "entry_dict e =
     PDict [(''name'', PStr (e_name e)), (''category'', e_category e),
            (''description'', e_description e),
            (''project_indicators'', PList (e_project_indicators e))]"

text \<open>What the \<^verbatim>\<open>with\<close> block writes: the dump, then \<^verbatim>\<open>f.write("\n")\<close>.\<close>

definition meta_json_text :: "(string \<Rightarrow> string) \<Rightarrow> entry list \<Rightarrow> string" where
  "meta_json_text esc entries = dumps esc (PList (map entry_dict entries)) @ ''\<newline>''"

subsection \<open>The file system and the atomic write\<close>

text \<open>A file system maps a path (relative to the working directory) to the file's content.\<close>

type_synonym fs = "string \<Rightarrow> string option"

definition meta_path :: string where
  "meta_path = ''pkl/builtins_meta.json''"

definition builtins_path :: string where
  "builtins_path = ''pkl/Builtins.pkl''"

text \<open>
  \<^verbatim>\<open>tempfile.mkstemp(dir="pkl", prefix="builtins_meta.json.", suffix=".tmp")\<close> tries random
  names (here \<open>candidates\<close>) until one is free, and creates that file empty.
\<close>

definition tmp_name :: "string \<Rightarrow> string" where
  "tmp_name r = ''pkl'' @ ''/'' @ ''builtins_meta.json.'' @ r @ ''.tmp''"

definition mkstemp :: "fs \<Rightarrow> string list \<Rightarrow> exn + (string \<times> fs)" where
  "mkstemp fs candidates =
     (case find (\<lambda>r. fs (tmp_name r) = None) candidates of
        None \<Rightarrow> Inl OSError
      | Some r \<Rightarrow> Inr (tmp_name r, fs(tmp_name r \<mapsto> [])))"

definition os_replace :: "string \<Rightarrow> string \<Rightarrow> fs \<Rightarrow> exn + fs" where
  "os_replace src dst fs =
     (case fs src of
        None \<Rightarrow> Inl OSError
      | Some content \<Rightarrow> Inr ((fs(src := None))(dst \<mapsto> content)))"

definition os_unlink :: "string \<Rightarrow> fs \<Rightarrow> exn + fs" where
  "os_unlink path fs =
     (case fs path of
        None \<Rightarrow> Inl OSError
      | Some content \<Rightarrow> Inr (fs(path := None)))"

text \<open>
  What may go wrong inside the \<^verbatim>\<open>try\<close>: the writing stops with an error after \<open>k\<close>
  characters have reached the file, or \<^verbatim>\<open>os.replace\<close> raises.
\<close>

datatype fault = NoFault | WriteFault nat | ReplaceFault

text \<open>The states of the file system while the first \<open>k\<close> characters reach the file.\<close>

definition written_prefixes :: "fs \<Rightarrow> string \<Rightarrow> string \<Rightarrow> nat \<Rightarrow> fs list" where
  "written_prefixes fs tmpfile data k = map (\<lambda>j. fs(tmpfile \<mapsto> take j data)) [0..<Suc k]"

text \<open>The \<^verbatim>\<open>except\<close> clause: \<^verbatim>\<open>os.unlink(tmpfile)\<close>, then \<^verbatim>\<open>raise\<close>.\<close>

definition cleanup :: "string \<Rightarrow> fs list \<Rightarrow> exn \<Rightarrow> fs list \<times> (exn + unit)" where
  "cleanup tmpfile trace e =
     (case os_unlink tmpfile (last trace) of
        Inl e' \<Rightarrow> (trace, Inl e')
      | Inr fs' \<Rightarrow> (trace @ [fs'], Inl e))"

text \<open>
  Lines 108 to 116: every state the file system goes through, in order, and the outcome.
\<close>

definition write_atomically ::
  "fs \<Rightarrow> string list \<Rightarrow> fault \<Rightarrow> string \<Rightarrow> fs list \<times> (exn + unit)" where
  "write_atomically fs candidates flt data =
     (case mkstemp fs candidates of
        Inl e \<Rightarrow> ([fs], Inl e)
      | Inr (tmpfile, fs1) \<Rightarrow>
          (case flt of
             WriteFault k \<Rightarrow> cleanup tmpfile (fs # written_prefixes fs1 tmpfile data k) OSError
           | ReplaceFault \<Rightarrow>
               cleanup tmpfile (fs # written_prefixes fs1 tmpfile data (length data)) OSError
           | NoFault \<Rightarrow>
               (let trace = fs # written_prefixes fs1 tmpfile data (length data)
                in case os_replace tmpfile meta_path (last trace) of
                     Inl e \<Rightarrow> cleanup tmpfile trace e
                   | Inr fs3 \<Rightarrow> (trace @ [fs3], Inr ()))))"

subsection \<open>The whole run\<close>

text \<open>
  Everything \<^verbatim>\<open>main\<close> takes from outside: the directory listing, what the formatter run
  does (its outcome, and the text it leaves in the file), the reflection run for each path,
  the two functions of the \<^verbatim>\<open>json\<close> module, the names \<^verbatim>\<open>mkstemp\<close> tries, and the fault of
  the final write.
\<close>

record env =
  env_listing :: "string list"
  env_formatter :: proc_result
  env_formatted :: "string \<Rightarrow> string"
  env_reflect :: "string \<Rightarrow> proc_result"
  env_loads :: "string \<Rightarrow> exn + pyval"
  env_esc :: "string \<Rightarrow> string"
  env_candidates :: "string list"
  env_fault :: fault

record run =
  run_fs :: fs
  run_stdout :: "string list"
  run_result :: "exn + unit"

text \<open>Lines 55 to 118, from the file system the formatter leaves.\<close>

definition metadata_pass :: "env \<Rightarrow> fs \<Rightarrow> run" where
  "metadata_pass env fs =
     (let entries = metadata_entries (env_loads env) (env_reflect env) (env_listing env);
          w = write_atomically fs (env_candidates env) (env_fault env)
                (meta_json_text (env_esc env) entries)
      in case snd w of
           Inl e \<Rightarrow> \<lparr>run_fs = last (fst w), run_stdout = [], run_result = Inl e\<rparr>
         | Inr u \<Rightarrow> \<lparr>run_fs = last (fst w), run_stdout = [meta_path], run_result = Inr ()\<rparr>)"

definition main :: "env \<Rightarrow> fs \<Rightarrow> run" where
  "main env fs =
     (let text = builtins_pkl_text (env_listing env);
          fs1 = fs(builtins_path \<mapsto> text)
      in case env_formatter env of
           Raised e \<Rightarrow> \<lparr>run_fs = fs1, run_stdout = [], run_result = Inl e\<rparr>
         | Completed returncode output \<Rightarrow>
             metadata_pass env (fs1(builtins_path \<mapsto> env_formatted env text)))"

subsection \<open>Notions the properties are stated with\<close>

text \<open>
  The \<^verbatim>\<open>moduleClass.properties\<close> mapping of a parsed reflection output, when the output has
  that structure: an object whose \<^verbatim>\<open>moduleClass\<close> is an object whose \<^verbatim>\<open>properties\<close> is an
  object.
\<close>

definition properties_of :: "pyval \<Rightarrow> (string \<times> pyval) list option" where
  "properties_of data =
     (case data of
        PDict d \<Rightarrow>
          (case map_of d ''moduleClass'' of
             Some (PDict mc) \<Rightarrow>
               (case map_of mc ''properties'' of
                  Some (PDict props) \<Rightarrow> Some props
                | _ \<Rightarrow> None)
           | _ \<Rightarrow> None)
      | _ \<Rightarrow> None)"

text \<open>
  The failures of the reflection step: the run raises, or exits non-zero, or its output does
  not parse, or the parsed output lacks the \<^verbatim>\<open>moduleClass.properties\<close> structure.
\<close>

definition reflection_fails :: "(string \<Rightarrow> exn + pyval) \<Rightarrow> proc_result \<Rightarrow> bool" where
  "reflection_fails loads res =
     (case res of
        Raised e \<Rightarrow> True
      | Completed returncode stdout \<Rightarrow>
          (if returncode \<noteq> 0 then True
           else (case loads stdout of
                   Inl e \<Rightarrow> True
                 | Inr data \<Rightarrow> properties_of data = None)))"

definition is_dict :: "pyval \<Rightarrow> bool" where
  "is_dict v = (case v of PDict d \<Rightarrow> True | _ \<Rightarrow> False)"

definition is_list :: "pyval \<Rightarrow> bool" where
  "is_list v = (case v of PList xs \<Rightarrow> True | _ \<Rightarrow> False)"

text \<open>
  The annotation elements of a property that is an object whose \<^verbatim>\<open>annotations\<close>, when
  present, is a list of objects.
\<close>

definition annotations_of :: "pyval \<Rightarrow> pyval list option" where
  "annotations_of prop =
     (case prop of
        PDict pd \<Rightarrow>
          (case map_of pd ''annotations'' of
             None \<Rightarrow> Some []
           | Some (PList anns) \<Rightarrow> if list_all is_dict anns then Some anns else None
           | Some _ \<Rightarrow> None)
      | _ \<Rightarrow> None)"

text \<open>The value an annotation element declares for a key, if it declares one.\<close>

definition declared :: "string \<Rightarrow> pyval \<Rightarrow> pyval option" where
  "declared key ann = (case ann of PDict d \<Rightarrow> map_of d key | _ \<Rightarrow> None)"

text \<open>The value of the last element, in list order, that declares the key; else the default.\<close>

definition last_declared :: "string \<Rightarrow> pyval list \<Rightarrow> pyval \<Rightarrow> pyval" where
  "last_declared key anns dflt =
     (case List.map_filter (declared key) anns of
        [] \<Rightarrow> dflt
      | v # vs \<Rightarrow> last (v # vs))"

text \<open>The same for \<^verbatim>\<open>project_indicators\<close>, counting only the elements that declare a list.\<close>

definition declared_list :: "pyval \<Rightarrow> pyval list option" where
  "declared_list ann =
     (case declared ''project_indicators'' ann of
        Some (PList xs) \<Rightarrow> Some xs
      | _ \<Rightarrow> None)"

definition last_declared_list :: "pyval list \<Rightarrow> pyval list" where
  "last_declared_list anns =
     (case List.map_filter declared_list anns of
        [] \<Rightarrow> []
      | v # vs \<Rightarrow> last (v # vs))"

text \<open>The directory of a path, as \<^verbatim>\<open>posixpath.dirname\<close> gives it.\<close>

definition dirname :: "string \<Rightarrow> string" where
  "dirname p =
     (let head = take (nat (rfind (CHR ''/'') p + 1)) p
      in if head \<noteq> [] \<and> \<not> list_all (\<lambda>c. c = CHR ''/'') head
         then rev (dropWhile (\<lambda>c. c = CHR ''/'') (rev head))
         else head)"

subsection \<open>Example runs\<close>

text \<open>Reflection outputs, and \<^verbatim>\<open>json.loads\<close> on them.\<close>

definition text_no_properties :: string where
  \<open>text_no_properties = ''{"moduleClass": {"properties": {}}}''\<close>

definition text_null_property :: string where
  \<open>text_null_property = ''{"moduleClass": {"properties": {"x": null}}}''\<close>

definition text_black :: string where
  \<open>text_black =
     ''{"moduleClass": {"properties": {'' @
     ''"black": {"annotations": [{"category": "Python", "description": "formatter"}, '' @
     ''{"category": "Py"}]}, '' @
     ''"other": {"annotations": [{"category": "Zzz"}]}}}}''\<close>

definition text_cargo :: string where
  \<open>text_cargo =
     ''{"moduleClass": {"properties": {"cargo": {"annotations": ['' @
     ''{"project_indicators": [{"file": "Cargo.toml"}]}, '' @
     ''{"project_indicators": "Cargo.toml"}]}}}}''\<close>

definition text_ruff :: string where
  \<open>text_ruff =
     ''{"moduleClass": {"properties": {"ruff": {"annotations": ['' @
     ''{"category": "Python", "project_indicators": "ruff.toml"}]}}}}''\<close>

definition anns_black :: "pyval list" where
  "anns_black =
     [PDict [(''category'', PStr ''Python''), (''description'', PStr ''formatter'')],
      PDict [(''category'', PStr ''Py'')]]"

definition anns_cargo :: "pyval list" where
  "anns_cargo =
     [PDict [(''project_indicators'', PList [PDict [(''file'', PStr ''Cargo.toml'')]])],
      PDict [(''project_indicators'', PStr ''Cargo.toml'')]]"

definition anns_ruff :: "pyval list" where
  "anns_ruff =
     [PDict [(''category'', PStr ''Python''), (''project_indicators'', PStr ''ruff.toml'')]]"

definition module_with :: "(string \<times> pyval) list \<Rightarrow> pyval" where
  "module_with props = PDict [(''moduleClass'', PDict [(''properties'', PDict props)])]"

definition example_loads :: "string \<Rightarrow> exn + pyval" where
  "example_loads s =
     (if s = text_no_properties then Inr (module_with [])
      else if s = text_null_property then Inr (module_with [(''x'', PNone)])
      else if s = text_black then
        Inr (module_with [(''black'', PDict [(''annotations'', PList anns_black)]),
                          (''other'', PDict [(''annotations'',
                             PList [PDict [(''category'', PStr ''Zzz'')]])])])
      else if s = text_cargo then
        Inr (module_with [(''cargo'', PDict [(''annotations'', PList anns_cargo)])])
      else if s = text_ruff then
        Inr (module_with [(''ruff'', PDict [(''annotations'', PList anns_ruff)])])
      else Inl ValueError)"

text \<open>
  A reflection run per path: \<^verbatim>\<open>a.pkl\<close> makes the tool exit with status 1, \<^verbatim>\<open>b.pkl\<close> is a
  module without properties, \<^verbatim>\<open>c.pkl\<close> and \<^verbatim>\<open>d.pkl\<close> are builtins.
\<close>

definition example_reflect :: "string \<Rightarrow> proc_result" where
  "example_reflect filepath =
     (if filepath = ''pkl/builtins/a.pkl'' then Completed 1 []
      else if filepath = ''pkl/builtins/b.pkl'' then Completed 0 text_no_properties
      else if filepath = ''pkl/builtins/c.pkl'' then Completed 0 text_black
      else if filepath = ''pkl/builtins/d.pkl'' then Completed 0 text_ruff
      else Raised OSError)"

text \<open>A file system that holds an earlier metadata file.\<close>

definition example_fs :: fs where
  "example_fs = [meta_path \<mapsto> ''[1]'']"

definition example_env :: env where
  "example_env =
     \<lparr>env_listing = [''README.md''], env_formatter = Completed 11 [],
      env_formatted = (\<lambda>t. t), env_reflect = example_reflect, env_loads = example_loads,
      env_esc = (\<lambda>s. [CHR 0x22] @ s @ [CHR 0x22]), env_candidates = [''k3x9q2ab''],
      env_fault = NoFault\<rparr>"

section \<open>Properties of the aggregator\<close>

subsection \<open>Sorting paths is sorting names\<close>

lemma app_le: "(pre @ a \<le> pre @ b) = (a \<le> (b::string))"
  by (induction pre) auto

lemma insort_prefix:
  "insort (pre @ x) (map ((@) pre) ys) = map ((@) pre) (insort x (ys::string list))"
  by (induction ys) (auto simp: app_le)

lemma sort_prefix: "sort (map ((@) pre) xs) = map ((@) pre) (sort (xs::string list))"
  by (induction xs) (auto simp: insort_prefix)

subsection \<open>The path functions on a fragment's path\<close>

lemma rfind_absent: "c \<notin> set p \<Longrightarrow> rfind c p = - 1"
  by (simp add: rfind_def)

lemma takeWhile_rev_last:
  "c \<notin> set ys \<Longrightarrow> takeWhile (\<lambda>x. x \<noteq> c) (rev ys @ c # zs) = rev ys"
  by (induction ys rule: rev_induct) auto

lemma rfind_last: "c \<notin> set ys \<Longrightarrow> rfind c (xs @ c # ys) = int (length xs)"
  by (simp add: rfind_def takeWhile_rev_last)

lemma basename_join: "CHR ''/'' \<notin> set n \<Longrightarrow> basename (''pkl/builtins/'' @ n) = n"
proof -
  assume n: "CHR ''/'' \<notin> set n"
  have "rfind (CHR ''/'') (''pkl/builtins'' @ CHR ''/'' # n) = int (length ''pkl/builtins'')"
    using n by (rule rfind_last)
  then show ?thesis by (simp add: basename_def)
qed

lemma endswith_append: "endswith n suf \<Longrightarrow> n = take (length n - length suf) n @ suf"
  by (metis append_take_drop_id endswith_def)

lemma fragment_stem:
  assumes "is_fragment n"
  shows "n = spec_stem n @ ''.pkl''" and "spec_stem n \<noteq> []" and "hd (spec_stem n) \<noteq> CHR ''.''"
proof -
  from assms have e: "endswith n ''.pkl''" and h: "\<not> ishidden n"
    by (simp_all add: is_fragment_def fnmatch_pkl_def)
  have "length ''.pkl'' = 4" by simp
  with endswith_append[OF e] show n: "n = spec_stem n @ ''.pkl''"
    unfolding spec_stem_def by metis
  show "spec_stem n \<noteq> []"
  proof
    assume "spec_stem n = []"
    with n have "n = ''.pkl''" by simp
    with h show False by (simp add: ishidden_def)
  qed
  then show "hd (spec_stem n) \<noteq> CHR ''.''"
    using h n by (cases "spec_stem n") (auto simp: ishidden_def split: list.splits)
qed

lemma splitext_stem:
  assumes "CHR ''/'' \<notin> set s" and "s \<noteq> []" and "hd s \<noteq> CHR ''.''"
  shows "splitext (s @ ''.pkl'') = (s, ''.pkl'')"
proof -
  have sep: "rfind (CHR ''/'') (s @ ''.pkl'') = - 1"
    using assms(1) by (simp add: rfind_absent)
  have dot: "rfind (CHR ''.'') (s @ CHR ''.'' # ''pkl'') = int (length s)"
    by (rule rfind_last) simp
  have "0 < length s" and "(s @ ''.pkl'') ! 0 \<noteq> CHR ''.''"
    using assms(2,3) by (cases s; simp)+
  then have ex: "list_ex (\<lambda>i. (s @ ''.pkl'') ! i \<noteq> CHR ''.'') [0..<length s]"
    unfolding list_ex_iff by (metis atLeastLessThan_iff set_upt le0)
  show ?thesis
    using sep dot ex by (simp add: splitext_def)
qed

lemma binding_line_fragment:
  assumes "is_fragment n" and "CHR ''/'' \<notin> set n"
  shows "binding_line (''pkl/builtins/'' @ n) = spec_line n"
proof -
  let ?s = "spec_stem n"
  have n: "n = ?s @ ''.pkl''" and ne: "?s \<noteq> []" and hd: "hd ?s \<noteq> CHR ''.''"
    using fragment_stem[OF assms(1)] by blast+
  have "CHR ''/'' \<notin> set ?s" using assms(2) n by (metis Un_iff set_append)
  then have "splitext (?s @ ''.pkl'') = (?s, ''.pkl'')" using ne hd by (rule splitext_stem)
  then have fn: "filename_of (''pkl/builtins/'' @ n) = ?s"
    using n basename_join[OF assms(2)] by (simp add: filename_of_def)
  show ?thesis
    unfolding binding_line_def spec_line_def identifier_of_def fn spec_identifier_def str_replace_def
    by (rule refl)
qed

text \<open>
  C1.  For every directory listing (names without a slash), the text written to
  \<^verbatim>\<open>pkl/Builtins.pkl\<close> before formatting is the header followed by one line per name that
  the pattern \<^verbatim>\<open>*.pkl\<close> selects, in ascending order of the names; the line of a name is
  \<open>identifier = Builtins["builtins/stem.pkl"].identifier\<close> with a newline, where the stem is
  the name without its extension \<^verbatim>\<open>.pkl\<close> and the identifier is the stem with every hyphen
  replaced by an underscore.
\<close>

theorem aggregator_text_lines:
  assumes "\<forall>n\<in>set names. CHR ''/'' \<notin> set n"
  shows "builtins_pkl_text names =
           HEADER @ concat (map spec_line (sort (filter is_fragment names))) \<and>
         (\<forall>n\<in>set (filter is_fragment names). spec_stem n @ ''.pkl'' = n)"
proof -
  have stems: "\<forall>n\<in>set (filter is_fragment names). spec_stem n @ ''.pkl'' = n"
    using fragment_stem(1) by auto
  have "\<And>n. n \<in> set (sort (filter is_fragment names)) \<Longrightarrow>
          binding_line (''pkl/builtins/'' @ n) = spec_line n"
    using assms by (intro binding_line_fragment) auto
  then have "map binding_line (map ((@) ''pkl/builtins/'') (sort (filter is_fragment names)))
        = map spec_line (sort (filter is_fragment names))"
    unfolding map_map comp_def by (rule map_cong[OF refl])
  then have "builtins_pkl_text names =
      HEADER @ concat (map spec_line (sort (filter is_fragment names)))"
    by (simp only: builtins_pkl_text_def glob_builtins_def sort_prefix)
  with stems show ?thesis by blast
qed

theorem aggregator_text_lines_witness:
  \<open>CHR ''/'' \<notin> set ''node-js.pkl'' \<and> CHR ''/'' \<notin> set ''.x.pkl'' \<and>
   CHR ''/'' \<notin> set ''b.txt'' \<and> CHR ''/'' \<notin> set ''a.pkl'' \<and>
   builtins_pkl_text [''node-js.pkl'', ''.x.pkl'', ''b.txt'', ''a.pkl''] =
     HEADER @ (''a = Builtins["builtins/a.pkl"].a\<newline>'' @
               ''node_js = Builtins["builtins/node-js.pkl"].node_js\<newline>'')\<close>
proof -
  have h: "\<forall>n\<in>set [''node-js.pkl'', ''.x.pkl'', ''b.txt'', ''a.pkl'']. CHR ''/'' \<notin> set n"
    by code_simp
  have s: \<open>concat (map spec_line
             (sort (filter is_fragment [''node-js.pkl'', ''.x.pkl'', ''b.txt'', ''a.pkl'']))) =
           ''a = Builtins["builtins/a.pkl"].a\<newline>'' @
           ''node_js = Builtins["builtins/node-js.pkl"].node_js\<newline>''\<close>
    by code_simp
  have "builtins_pkl_text [''node-js.pkl'', ''.x.pkl'', ''b.txt'', ''a.pkl''] =
     HEADER @ concat (map spec_line
             (sort (filter is_fragment [''node-js.pkl'', ''.x.pkl'', ''b.txt'', ''a.pkl''])))"
    using aggregator_text_lines[OF h] by blast
  then show ?thesis
    unfolding s using h by simp
qed

subsection \<open>The identifier of an identifier\<close>

lemma basename_no_slash: "CHR ''/'' \<notin> set (basename p)"
proof (cases "CHR ''/'' \<in> set p")
  case False
  then show ?thesis by (simp add: basename_def rfind_absent)
next
  case True
  then obtain xs ys where p: "p = xs @ CHR ''/'' # ys" and ys: "CHR ''/'' \<notin> set ys"
    by (meson split_list_last)
  have "rfind (CHR ''/'') p = int (length xs)"
    unfolding p using ys by (rule rfind_last)
  moreover have "nat (int (length xs) + 1) = Suc (length xs)" by simp
  ultimately have "basename p = drop (Suc (length xs)) (xs @ CHR ''/'' # ys)"
    by (simp only: basename_def p)
  then have "basename p = ys" by simp
  with ys show ?thesis by simp
qed

lemma basename_id: "CHR ''/'' \<notin> set p \<Longrightarrow> basename p = p"
  by (simp add: basename_def rfind_absent)

lemma splitext_append: "fst (splitext p) @ snd (splitext p) = p"
  by (simp add: splitext_def Let_def)

lemma splitext_fst_set: "set (fst (splitext p)) \<subseteq> set p"
  by (metis splitext_append set_append Un_upper1)

lemma str_replace_set: "old \<noteq> new \<Longrightarrow> old \<notin> set (str_replace old new s)"
  by (auto simp: str_replace_def)

lemma str_replace_keeps: "c \<notin> set s \<Longrightarrow> c \<noteq> new \<Longrightarrow> c \<notin> set (str_replace old new s)"
  by (auto simp: str_replace_def)

lemma str_replace_absent: "old \<notin> set s \<Longrightarrow> str_replace old new s = s"
  by (induction s) (auto simp: str_replace_def)

lemma identifier_no_slash: "CHR ''/'' \<notin> set (identifier_of f)"
proof -
  have "CHR ''/'' \<notin> set (filename_of f)"
    using basename_no_slash[of f] splitext_fst_set[of "basename f"]
    by (auto simp: filename_of_def)
  then show ?thesis
    unfolding identifier_of_def by (rule str_replace_keeps) simp
qed

lemma identifier_no_hyphen: "CHR ''-'' \<notin> set (identifier_of f)"
  unfolding identifier_of_def by (rule str_replace_set) simp

lemma identifier_of_identifier:
  "identifier_of (identifier_of f) = fst (splitext (identifier_of f))"
proof -
  let ?g = "identifier_of f"
  have fn: "filename_of ?g = fst (splitext ?g)"
    by (simp add: filename_of_def basename_id[OF identifier_no_slash])
  have "CHR ''-'' \<notin> set (fst (splitext ?g))"
    using identifier_no_hyphen[of f] splitext_fst_set[of ?g] by auto
  then show ?thesis
    unfolding identifier_of_def[of ?g] fn by (rule str_replace_absent)
qed

text \<open>
  C2, as stated, fails: the derivation strips one extension each time it is applied, so on
  \<^verbatim>\<open>a.b.pkl\<close> the first application gives \<^verbatim>\<open>a.b\<close> and the second gives \<^verbatim>\<open>a\<close>.
\<close>

theorem identifier_not_idempotent:
  "identifier_of ''a.b.pkl'' = ''a.b'' \<and> identifier_of (identifier_of ''a.b.pkl'') = ''a''"
  by code_simp

text \<open>
  C2, amended.  Applying the derivation twice gives the same as applying it once exactly
  when the derived identifier has no extension left to strip (\<^verbatim>\<open>splitext\<close> of it returns an
  empty extension), as for every name with a single dot.
\<close>

theorem identifier_idempotent_iff:
  "identifier_of (identifier_of f) = identifier_of f \<longleftrightarrow>
     snd (splitext (identifier_of f)) = []"
proof -
  let ?g = "identifier_of f"
  have "fst (splitext ?g) = ?g \<longleftrightarrow> snd (splitext ?g) = []"
    using splitext_append[of ?g] by (metis self_append_conv)
  then show ?thesis by (simp only: identifier_of_identifier)
qed

theorem identifier_idempotent_iff_witness:
  "snd (splitext (identifier_of ''node-js.pkl'')) = [] \<and>
   identifier_of ''node-js.pkl'' = ''node_js'' \<and>
   identifier_of (identifier_of ''node-js.pkl'') = identifier_of ''node-js.pkl''"
proof -
  have e: "snd (splitext (identifier_of ''node-js.pkl'')) = []" by code_simp
  have i: "identifier_of ''node-js.pkl'' = ''node_js''" by code_simp
  from e have "identifier_of (identifier_of ''node-js.pkl'') = identifier_of ''node-js.pkl''"
    by (simp only: identifier_idempotent_iff)
  with e i show ?thesis by blast
qed

subsection \<open>Determinism\<close>

lemma glob_distinct: "distinct names \<Longrightarrow> distinct (glob_builtins names)"
  by (simp add: glob_builtins_def distinct_map inj_on_def)

lemma glob_set: "set xs = set ys \<Longrightarrow> set (glob_builtins xs) = set (glob_builtins ys)"
  by (simp add: glob_builtins_def)

text \<open>
  C9.  Two listings of the same directory (the same names, each once, in any order) give the
  same text: the text depends on the names only through their sorted list.
\<close>

theorem aggregator_deterministic:
  assumes "distinct xs" and "distinct ys" and "set xs = set ys"
  shows "builtins_pkl_text xs = builtins_pkl_text ys"
proof -
  have "sort (glob_builtins xs) = sort (glob_builtins ys)"
    by (rule sorted_distinct_set_unique)
       (simp_all add: glob_distinct assms(1,2) glob_set[OF assms(3)])
  then show ?thesis by (simp add: builtins_pkl_text_def)
qed

theorem aggregator_deterministic_witness:
  "distinct [''b.pkl'', ''x.txt'', ''a-1.pkl''] \<and> distinct [''a-1.pkl'', ''b.pkl'', ''x.txt''] \<and>
   set [''b.pkl'', ''x.txt'', ''a-1.pkl''] = set [''a-1.pkl'', ''b.pkl'', ''x.txt''] \<and>
   builtins_pkl_text [''b.pkl'', ''x.txt'', ''a-1.pkl''] =
     builtins_pkl_text [''a-1.pkl'', ''b.pkl'', ''x.txt'']"
proof -
  have d1: "distinct [''b.pkl'', ''x.txt'', ''a-1.pkl'']" by simp
  have d2: "distinct [''a-1.pkl'', ''b.pkl'', ''x.txt'']" by simp
  have s: "set [''b.pkl'', ''x.txt'', ''a-1.pkl''] = set [''a-1.pkl'', ''b.pkl'', ''x.txt'']"
    by auto
  from aggregator_deterministic[OF d1 d2 s] d1 d2 s show ?thesis by blast
qed

section \<open>Properties of the metadata extraction\<close>

subsection \<open>The entry of a parsed reflection output\<close>

lemma extract_entry_properties:
  "properties_of data = Some props \<Longrightarrow>
   extract_entry data =
     (case props of
        [] \<Rightarrow> Inr None
      | (name, prop) # _ \<Rightarrow>
           bind_exn (py_get prop ''annotations'' (PList [])) (\<lambda>annotations.
           bind_exn (py_iter annotations) (\<lambda>anns.
           bind_exn (scan_annotations (PStr [], PStr [], []) anns) (\<lambda>vars.
             case vars of (category, description, project_indicators) \<Rightarrow>
               Inr (Some \<lparr>e_name = name, e_category = category, e_description = description,
                          e_project_indicators = project_indicators\<rparr>)))))"
  by (auto simp: properties_of_def extract_entry_def py_get_def py_items_def bind_exn_def
           split: pyval.splits option.splits)

lemma extract_entry_lacking:
  "properties_of data = None \<Longrightarrow> extract_entry data = Inr None \<or> (\<exists>e. extract_entry data = Inl e)"
  by (auto simp: properties_of_def extract_entry_def py_get_def py_items_def bind_exn_def
           split: pyval.splits option.splits)

subsection \<open>Fragments that contribute no entry\<close>

lemma fragment_entry_fails:
  "reflection_fails loads res \<Longrightarrow> fragment_entry loads res = None"
proof (cases res)
  case (Raised e)
  then show ?thesis by (simp add: fragment_entry_def)
next
  case (Completed returncode stdout)
  assume f: "reflection_fails loads res"
  show ?thesis
  proof (cases "returncode \<noteq> 0")
    case True
    with Completed show ?thesis by (simp add: fragment_entry_def)
  next
    case False
    show ?thesis
    proof (cases "loads stdout")
      case (Inl e)
      with Completed False show ?thesis by (simp add: fragment_entry_def bind_exn_def)
    next
      case (Inr data)
      with f Completed False have "properties_of data = None"
        by (simp add: reflection_fails_def)
      from extract_entry_lacking[OF this] Completed False Inr show ?thesis
        by (auto simp: fragment_entry_def bind_exn_def)
    qed
  qed
qed

lemma extract_all_append:
  "extract_all loads reflect (xs @ ys) entries =
     extract_all loads reflect ys (extract_all loads reflect xs entries)"
  by (induction xs arbitrary: entries) (auto split: option.splits)

lemma extract_all_length:
  "length (extract_all loads reflect ps entries) =
     length entries + length (filter (\<lambda>q. fragment_entry loads (reflect q) \<noteq> None) ps)"
  by (induction ps arbitrary: entries) (auto split: option.splits)

text \<open>
  C3, as stated, fails in its last part: with two fragments, \<^verbatim>\<open>a.pkl\<close> for which the tool
  exits with status 1 and \<^verbatim>\<open>b.pkl\<close> whose reflection output is a module without properties,
  exactly one fragment fails in one of the four ways, and the output has no entry, not one.
\<close>

theorem one_failure_not_one_less:
  "reflection_fails example_loads (example_reflect ''pkl/builtins/a.pkl'') \<and>
   \<not> reflection_fails example_loads (example_reflect ''pkl/builtins/b.pkl'') \<and>
   sort (glob_builtins [''b.pkl'', ''a.pkl'']) = [''pkl/builtins/a.pkl'', ''pkl/builtins/b.pkl''] \<and>
   length (metadata_entries example_loads example_reflect [''b.pkl'', ''a.pkl'']) = 0"
  by code_simp

text \<open>
  C3, amended.  A fragment whose reflection run raises, or exits non-zero, or prints what does
  not parse, or prints a value without the \<^verbatim>\<open>moduleClass.properties\<close> structure, adds no entry,
  and the loop goes on as if the fragment were not in the list.  If moreover every other
  fragment of the list yields an entry, the output has one entry less than there are
  fragments.
\<close>

theorem reflection_failure_skips:
  assumes "reflection_fails loads (reflect p)"
  shows "fragment_entry loads (reflect p) = None \<and>
         extract_all loads reflect (xs @ p # ys) entries =
           extract_all loads reflect (xs @ ys) entries \<and>
         ((\<forall>q\<in>set (xs @ ys). fragment_entry loads (reflect q) \<noteq> None) \<longrightarrow>
            length (extract_all loads reflect (xs @ p # ys) []) = length (xs @ p # ys) - 1)"
proof -
  have n: "fragment_entry loads (reflect p) = None"
    using assms by (rule fragment_entry_fails)
  have skip: "extract_all loads reflect (xs @ p # ys) es = extract_all loads reflect (xs @ ys) es"
    for es using n by (simp add: extract_all_append)
  have "length (extract_all loads reflect (xs @ p # ys) []) = length (xs @ ys)"
    if "\<forall>q\<in>set (xs @ ys). fragment_entry loads (reflect q) \<noteq> None"
  proof -
    have "filter (\<lambda>q. fragment_entry loads (reflect q) \<noteq> None) (xs @ ys) = xs @ ys"
      using that by (simp only: filter_id_conv) 
    then show ?thesis
      by (simp only: skip extract_all_length list.size add_0)
  qed
  then show ?thesis
    using n skip by simp
qed


theorem reflection_failure_skips_witness:
  "reflection_fails example_loads (example_reflect ''pkl/builtins/a.pkl'') \<and>
   fragment_entry example_loads (example_reflect ''pkl/builtins/c.pkl'') \<noteq> None \<and>
   fragment_entry example_loads (example_reflect ''pkl/builtins/d.pkl'') \<noteq> None \<and>
   length (extract_all example_loads example_reflect
      [''pkl/builtins/a.pkl'', ''pkl/builtins/c.pkl'', ''pkl/builtins/d.pkl''] []) = 2"
proof -
  have f: "reflection_fails example_loads (example_reflect ''pkl/builtins/a.pkl'')"
    by code_simp
  have c: "fragment_entry example_loads (example_reflect ''pkl/builtins/c.pkl'') \<noteq> None"
    by code_simp
  have d: "fragment_entry example_loads (example_reflect ''pkl/builtins/d.pkl'') \<noteq> None"
    by code_simp
  from c d have o: "\<forall>q\<in>set ([] @ [''pkl/builtins/c.pkl'', ''pkl/builtins/d.pkl'']).
      fragment_entry example_loads (example_reflect q) \<noteq> None" by simp
  from reflection_failure_skips[where loads = example_loads and reflect = example_reflect
      and p = "''pkl/builtins/a.pkl''" and xs = "[]"
      and ys = "[''pkl/builtins/c.pkl'', ''pkl/builtins/d.pkl'']", OF f] o
  have "length (extract_all example_loads example_reflect
      ([] @ ''pkl/builtins/a.pkl'' # [''pkl/builtins/c.pkl'', ''pkl/builtins/d.pkl'']) []) =
        length ([] @ ''pkl/builtins/a.pkl'' # [''pkl/builtins/c.pkl'', ''pkl/builtins/d.pkl'']) - 1"
    by blast
  then have "length (extract_all example_loads example_reflect
      [''pkl/builtins/a.pkl'', ''pkl/builtins/c.pkl'', ''pkl/builtins/d.pkl''] []) = 2"
    by simp
  with f c d show ?thesis by blast
qed


text \<open>
  C10.  A fragment whose reflection output parses and has the \<^verbatim>\<open>moduleClass.properties\<close>
  structure with an empty mapping is none of the failures above, and still adds no entry: the
  loop goes on as if the fragment were not in the list.
\<close>

theorem empty_properties_no_entry:
  assumes "reflect p = Completed 0 out" and "loads out = Inr data"
    and "properties_of data = Some []"
  shows "\<not> reflection_fails loads (reflect p) \<and>
         fragment_entry loads (reflect p) = None \<and>
         extract_all loads reflect (xs @ p # ys) entries =
           extract_all loads reflect (xs @ ys) entries"
proof -
  have "extract_entry data = Inr None"
    using extract_entry_properties[OF assms(3)] by simp
  then have n: "fragment_entry loads (reflect p) = None"
    using assms(1,2) by (simp add: fragment_entry_def bind_exn_def)
  have "\<not> reflection_fails loads (reflect p)"
    using assms by (simp add: reflection_fails_def)
  moreover have "extract_all loads reflect (xs @ p # ys) entries =
      extract_all loads reflect (xs @ ys) entries"
    using n by (simp add: extract_all_append)
  ultimately show ?thesis
    using n by simp
qed


theorem empty_properties_no_entry_witness:
  "example_reflect ''pkl/builtins/b.pkl'' = Completed 0 text_no_properties \<and>
   example_loads text_no_properties = Inr (module_with []) \<and>
   properties_of (module_with []) = Some [] \<and>
   fragment_entry example_loads (example_reflect ''pkl/builtins/b.pkl'') = None \<and>
   extract_all example_loads example_reflect [''pkl/builtins/b.pkl'', ''pkl/builtins/c.pkl''] [] =
     extract_all example_loads example_reflect [''pkl/builtins/c.pkl''] []"
proof -
  have r: "example_reflect ''pkl/builtins/b.pkl'' = Completed 0 text_no_properties"
    by (simp add: example_reflect_def)
  have l: "example_loads text_no_properties = Inr (module_with [])"
    by (simp add: example_loads_def)
  have p: "properties_of (module_with []) = Some []"
    by (simp add: properties_of_def module_with_def)
  from empty_properties_no_entry[where reflect = example_reflect and loads = example_loads
      and xs = "[]" and ys = "[''pkl/builtins/c.pkl'']" and entries = "[]", OF r l p]
  show ?thesis using r l p by simp
qed

subsection \<open>The entry of a well-formed first property\<close>

lemma scan_annotation_dict:
  "is_dict ann \<Longrightarrow>
   scan_annotation (c, d, p) ann =
     Inr (case declared ''category'' ann of Some v \<Rightarrow> v | None \<Rightarrow> c,
          case declared ''description'' ann of Some v \<Rightarrow> v | None \<Rightarrow> d,
          case declared_list ann of Some xs \<Rightarrow> xs | None \<Rightarrow> p)"
  by (cases ann)
     (auto simp: is_dict_def scan_annotation_def py_contains_def py_getitem_def bind_exn_def
                 declared_def declared_list_def
           split: option.splits pyval.splits)

lemma last_map_filter_Cons:
  "(case List.map_filter f (a # xs) of [] \<Rightarrow> dflt | v # vs \<Rightarrow> last (v # vs)) =
   (case List.map_filter f xs of
      [] \<Rightarrow> (case f a of Some v \<Rightarrow> v | None \<Rightarrow> dflt)
    | v # vs \<Rightarrow> last (v # vs))"
  by (cases "f a"; cases "List.map_filter f xs") simp_all

lemma last_declared_Cons:
  "last_declared key (a # anns) dflt =
     last_declared key anns (case declared key a of Some v \<Rightarrow> v | None \<Rightarrow> dflt)"
  unfolding last_declared_def by (rule last_map_filter_Cons)

lemma scan_annotations_dicts:
  "list_all is_dict anns \<Longrightarrow>
   scan_annotations (c, d, p) anns =
     Inr (last_declared ''category'' anns c, last_declared ''description'' anns d,
          (case List.map_filter declared_list anns of [] \<Rightarrow> p | v # vs \<Rightarrow> last (v # vs)))"
proof (induction anns arbitrary: c d p)
  case Nil
  show ?case by (simp add: last_declared_def)
next
  case (Cons a anns)
  then have a: "is_dict a" and rest: "list_all is_dict anns" by simp_all
  show ?case
    by (simp only: scan_annotations.simps scan_annotation_dict[OF a] sum.case
          Cons.IH[OF rest] last_declared_Cons last_map_filter_Cons)
qed

lemma annotations_of_iter:
  "annotations_of prop = Some anns \<Longrightarrow>
   bind_exn (py_get prop ''annotations'' (PList [])) py_iter = Inr anns \<and> list_all is_dict anns"
  by (auto simp: annotations_of_def py_get_def py_iter_def bind_exn_def
           split: pyval.splits option.splits if_splits)

lemma well_formed_entry:
  assumes "properties_of data = Some ((name, prop) # rest)"
    and "annotations_of prop = Some anns"
  shows "extract_entry data =
     Inr (Some \<lparr>e_name = name,
                e_category = last_declared ''category'' anns (PStr []),
                e_description = last_declared ''description'' anns (PStr []),
                e_project_indicators = last_declared_list anns\<rparr>)"
proof -
  from annotations_of_iter[OF assms(2)]
  have it: "bind_exn (py_get prop ''annotations'' (PList [])) py_iter = Inr anns"
    and dicts: "list_all is_dict anns" by simp_all
  from it obtain av where av: "py_get prop ''annotations'' (PList []) = Inr av"
    and an: "py_iter av = Inr anns"
    by (auto simp: bind_exn_def split: sum.splits)
  show ?thesis
    using extract_entry_properties[OF assms(1)]
    by (simp add: av an bind_exn_def scan_annotations_dicts[OF dicts] last_declared_list_def)
qed

text \<open>
  C4, as stated, fails twice.  A non-empty \<^verbatim>\<open>properties\<close> mapping whose first property is not
  an object (here \<^verbatim>\<open>null\<close>) raises inside the \<^verbatim>\<open>try\<close> and gives no entry.  And when the last
  element that declares \<^verbatim>\<open>project_indicators\<close> declares a string, the list of an earlier
  element is retained, not the value of the last declaring element.
\<close>

theorem first_property_counterexample:
  "example_loads text_null_property = Inr (module_with [(''x'', PNone)]) \<and>
   properties_of (module_with [(''x'', PNone)]) = Some [(''x'', PNone)] \<and>
   fragment_entry example_loads (Completed 0 text_null_property) = None \<and>
   example_loads text_cargo =
     Inr (module_with [(''cargo'', PDict [(''annotations'', PList anns_cargo)])]) \<and>
   last_declared ''project_indicators'' anns_cargo (PList []) = PStr ''Cargo.toml'' \<and>
   map_option e_project_indicators (fragment_entry example_loads (Completed 0 text_cargo)) =
     Some [PDict [(''file'', PStr ''Cargo.toml'')]]"
  by code_simp

text \<open>
  C4, amended.  For a fragment whose reflection output parses and has a non-empty
  \<^verbatim>\<open>moduleClass.properties\<close> mapping whose first property is an object with, if any, a list of
  objects as \<^verbatim>\<open>annotations\<close>, exactly one entry is produced, from that first property only:
  its name is the property's key; its category and its description are the values of the last
  annotation element that declares the key, or the empty string; its project indicators are
  the value of the last annotation element that declares a list for that key, or the empty
  list.
\<close>

theorem first_property_entry:
  assumes "reflect p = Completed 0 out" and "loads out = Inr data"
    and "properties_of data = Some ((name, prop) # rest)"
    and "annotations_of prop = Some anns"
  shows "fragment_entry loads (reflect p) =
           Some \<lparr>e_name = name,
                 e_category = last_declared ''category'' anns (PStr []),
                 e_description = last_declared ''description'' anns (PStr []),
                 e_project_indicators = last_declared_list anns\<rparr> \<and>
         extract_all loads reflect [p] entries =
           entries @ [\<lparr>e_name = name,
                 e_category = last_declared ''category'' anns (PStr []),
                 e_description = last_declared ''description'' anns (PStr []),
                 e_project_indicators = last_declared_list anns\<rparr>]"
proof -
  have "fragment_entry loads (reflect p) =
           Some \<lparr>e_name = name,
                 e_category = last_declared ''category'' anns (PStr []),
                 e_description = last_declared ''description'' anns (PStr []),
                 e_project_indicators = last_declared_list anns\<rparr>"
    using assms(1,2) well_formed_entry[OF assms(3,4)]
    by (simp add: fragment_entry_def bind_exn_def)
  then show ?thesis by simp
qed


theorem first_property_entry_witness:
  "example_reflect ''pkl/builtins/c.pkl'' = Completed 0 text_black \<and>
   fragment_entry example_loads (example_reflect ''pkl/builtins/c.pkl'') =
     Some \<lparr>e_name = ''black'', e_category = PStr ''Py'', e_description = PStr ''formatter'',
           e_project_indicators = []\<rparr>"
proof -
  let ?props = "[(''black'', PDict [(''annotations'', PList anns_black)]),
                 (''other'', PDict [(''annotations'', PList [PDict [(''category'', PStr ''Zzz'')]])])]"
  have r: "example_reflect ''pkl/builtins/c.pkl'' = Completed 0 text_black"
    by code_simp
  have l: "example_loads text_black = Inr (module_with ?props)"
    by code_simp
  have p: "properties_of (module_with ?props) =
      Some ((''black'', PDict [(''annotations'', PList anns_black)]) #
            [(''other'', PDict [(''annotations'', PList [PDict [(''category'', PStr ''Zzz'')]])])])"
    by code_simp
  have a: "annotations_of (PDict [(''annotations'', PList anns_black)]) = Some anns_black"
    by code_simp
  have c: "last_declared ''category'' anns_black (PStr []) = PStr ''Py''"
    and d: "last_declared ''description'' anns_black (PStr []) = PStr ''formatter''"
    and i: "last_declared_list anns_black = []"
    by code_simp+
  from first_property_entry[where reflect = example_reflect and loads = example_loads, OF r l p a]
  have "fragment_entry example_loads (example_reflect ''pkl/builtins/c.pkl'') =
     Some \<lparr>e_name = ''black'', e_category = PStr ''Py'', e_description = PStr ''formatter'',
           e_project_indicators = []\<rparr>"
    unfolding c d i by blast
  with r show ?thesis by blast
qed


subsection \<open>Project indicators that are not a list\<close>

lemma declared_list_non_list:
  "declared ''project_indicators'' ann = Some v \<Longrightarrow> \<not> is_list v \<Longrightarrow> declared_list ann = None"
  by (cases v) (simp_all add: declared_list_def is_list_def)

lemma last_declared_list_drop:
  "declared_list ann = None \<Longrightarrow>
   last_declared_list (pre @ ann # post) = last_declared_list (pre @ post)"
  by (simp add: last_declared_list_def List.map_filter_def)

lemma last_declared_list_none:
  "\<forall>a\<in>set anns. declared_list a = None \<Longrightarrow> last_declared_list anns = []"
proof -
  assume "\<forall>a\<in>set anns. declared_list a = None"
  then have "filter (\<lambda>a. declared_list a \<noteq> None) anns = []"
    by (simp add: filter_empty_conv)
  then show ?thesis
    by (simp add: last_declared_list_def List.map_filter_def)
qed

text \<open>
  C5, as stated, fails: when an earlier element declares a list, an element that declares a
  string leaves that list in the entry, not the empty list.
\<close>

theorem non_list_indicators_counterexample:
  "example_loads text_cargo =
     Inr (module_with [(''cargo'', PDict [(''annotations'', PList anns_cargo)])]) \<and>
   declared ''project_indicators'' (anns_cargo ! 1) = Some (PStr ''Cargo.toml'') \<and>
   \<not> is_list (PStr ''Cargo.toml'') \<and>
   map_option e_project_indicators (fragment_entry example_loads (Completed 0 text_cargo)) =
     Some [PDict [(''file'', PStr ''Cargo.toml'')]]"
  by code_simp

text \<open>
  C5, amended.  An annotation element (an object) whose \<^verbatim>\<open>project_indicators\<close> value is not a
  list raises nothing and leaves the variable as it was: the entry has the project indicators
  it would have without that element, which is the empty list when no other element declares
  a list.
\<close>

theorem non_list_indicators_discarded:
  assumes "reflect p = Completed 0 out" and "loads out = Inr data"
    and "properties_of data = Some ((name, prop) # rest)"
    and "annotations_of prop = Some (pre @ ann # post)"
    and "declared ''project_indicators'' ann = Some v" and "\<not> is_list v"
  shows "(\<exists>c d. scan_annotation (c0, d0, p0) ann = Inr (c, d, p0)) \<and>
         (\<exists>e. fragment_entry loads (reflect p) = Some e \<and>
              e_project_indicators e = last_declared_list (pre @ post) \<and>
              ((\<forall>a\<in>set (pre @ post). declared_list a = None) \<longrightarrow>
                 e_project_indicators e = []))"
proof -
  have none: "declared_list ann = None"
    using assms(5,6) by (rule declared_list_non_list)
  have "list_all is_dict (pre @ ann # post)"
    using annotations_of_iter[OF assms(4)] by simp
  then have "is_dict ann" by simp
  then have step: "\<exists>c d. scan_annotation (c0, d0, p0) ann = Inr (c, d, p0)"
    by (simp add: scan_annotation_dict none)
  let ?e = "\<lparr>e_name = name,
             e_category = last_declared ''category'' (pre @ ann # post) (PStr []),
             e_description = last_declared ''description'' (pre @ ann # post) (PStr []),
             e_project_indicators = last_declared_list (pre @ ann # post)\<rparr>"
  have e: "fragment_entry loads (reflect p) = Some ?e"
    using assms(1,2) well_formed_entry[OF assms(3,4)]
    by (simp add: fragment_entry_def bind_exn_def)
  have i: "e_project_indicators ?e = last_declared_list (pre @ post)"
    by (simp add: last_declared_list_drop[OF none])
  then have "(\<forall>a\<in>set (pre @ post). declared_list a = None) \<longrightarrow> e_project_indicators ?e = []"
    using last_declared_list_none[of "pre @ post"] by simp
  with e i step show ?thesis by blast
qed


theorem non_list_indicators_discarded_witness:
  "example_reflect ''pkl/builtins/d.pkl'' = Completed 0 text_ruff \<and>
   declared ''project_indicators'' (hd anns_ruff) = Some (PStr ''ruff.toml'') \<and>
   \<not> is_list (PStr ''ruff.toml'') \<and>
   map_option e_project_indicators (fragment_entry example_loads (example_reflect ''pkl/builtins/d.pkl'')) =
     Some []"
proof -
  let ?ann = "PDict [(''category'', PStr ''Python''), (''project_indicators'', PStr ''ruff.toml'')]"
  let ?first = "PDict [(''annotations'', PList anns_ruff)]"
  have r: "example_reflect ''pkl/builtins/d.pkl'' = Completed 0 text_ruff"
    by code_simp
  have l: "example_loads text_ruff = Inr (module_with [(''ruff'', ?first)])"
    by code_simp
  have p: "properties_of (module_with [(''ruff'', ?first)]) = Some ((''ruff'', ?first) # [])"
    by code_simp
  have a: "annotations_of ?first = Some ([] @ ?ann # [])"
    by code_simp
  have d: "declared ''project_indicators'' ?ann = Some (PStr ''ruff.toml'')"
    by code_simp
  have h: "hd anns_ruff = ?ann" by code_simp
  have n: "\<not> is_list (PStr ''ruff.toml'')" by code_simp
  from non_list_indicators_discarded[where reflect = example_reflect and loads = example_loads,
      OF r l p a d n]
  obtain e where "fragment_entry example_loads (example_reflect ''pkl/builtins/d.pkl'') = Some e"
    and "(\<forall>a\<in>set ([] @ []). declared_list a = None) \<longrightarrow> e_project_indicators e = []"
    by blast
  then have "map_option e_project_indicators
      (fragment_entry example_loads (example_reflect ''pkl/builtins/d.pkl'')) = Some []"
    by simp
  with r d n h show ?thesis by simp
qed

section \<open>Properties of the final write and of the whole run\<close>

subsection \<open>The atomic write, case by case\<close>

lemma tmp_name_not_meta: "tmp_name r \<noteq> meta_path"
  by (simp add: tmp_name_def meta_path_def)

lemma written_prefixes_last:
  "last (written_prefixes fs1 tmpfile data k) = fs1(tmpfile \<mapsto> take k data)"
  by (simp add: written_prefixes_def last_map del: upt_Suc)

lemma written_prefixes_other:
  "s \<in> set (written_prefixes fs1 tmpfile data k) \<Longrightarrow> path \<noteq> tmpfile \<Longrightarrow> s path = fs1 path"
  by (auto simp: written_prefixes_def)

lemma last_cons_prefixes:
  "last (fs # written_prefixes fs1 tmpfile data k) = fs1(tmpfile \<mapsto> take k data)"
  using written_prefixes_last[of fs1 tmpfile data k]
  by (simp add: written_prefixes_def del: upt_Suc)

lemma mkstemp_none:
  "find (\<lambda>r. fs (tmp_name r) = None) candidates = None \<Longrightarrow> mkstemp fs candidates = Inl OSError"
  by (simp add: mkstemp_def)

lemma mkstemp_some:
  "find (\<lambda>r. fs (tmp_name r) = None) candidates = Some r \<Longrightarrow>
   mkstemp fs candidates = Inr (tmp_name r, fs(tmp_name r \<mapsto> []))"
  by (simp add: mkstemp_def)

lemma cleanup_created:
  assumes "fs (tmp_name r) = None"
  shows "cleanup (tmp_name r)
           (fs # written_prefixes (fs(tmp_name r \<mapsto> [])) (tmp_name r) data k) e =
         (fs # written_prefixes (fs(tmp_name r \<mapsto> [])) (tmp_name r) data k @ [fs], Inl e)"
proof -
  have "(fs(tmp_name r \<mapsto> take k data))(tmp_name r := None) = fs"
    using assms by (auto simp: fun_eq_iff)
  then show ?thesis
    unfolding cleanup_def last_cons_prefixes os_unlink_def by simp
qed

lemma write_no_candidate:
  "find (\<lambda>r. fs (tmp_name r) = None) candidates = None \<Longrightarrow>
   write_atomically fs candidates flt data = ([fs], Inl OSError)"
  by (simp add: write_atomically_def mkstemp_none)

lemma write_fault:
  assumes "find (\<lambda>r. fs (tmp_name r) = None) candidates = Some r"
  shows "write_atomically fs candidates (WriteFault k) data =
     (fs # written_prefixes (fs(tmp_name r \<mapsto> [])) (tmp_name r) data k @ [fs], Inl OSError)"
proof -
  have "fs (tmp_name r) = None" using assms by (auto simp: find_Some_iff)
  then show ?thesis
    by (simp add: write_atomically_def mkstemp_some[OF assms] cleanup_created)
qed

lemma replace_fault:
  assumes "find (\<lambda>r. fs (tmp_name r) = None) candidates = Some r"
  shows "write_atomically fs candidates ReplaceFault data =
     (fs # written_prefixes (fs(tmp_name r \<mapsto> [])) (tmp_name r) data (length data) @ [fs],
      Inl OSError)"
proof -
  have "fs (tmp_name r) = None" using assms by (auto simp: find_Some_iff)
  then show ?thesis
    by (simp add: write_atomically_def mkstemp_some[OF assms] cleanup_created)
qed

lemma write_ok:
  assumes "find (\<lambda>r. fs (tmp_name r) = None) candidates = Some r"
  shows "write_atomically fs candidates NoFault data =
     (fs # written_prefixes (fs(tmp_name r \<mapsto> [])) (tmp_name r) data (length data) @
        [fs(meta_path \<mapsto> data)], Inr ())"
proof -
  have n: "fs (tmp_name r) = None" using assms by (auto simp: find_Some_iff)
  have "((fs(tmp_name r \<mapsto> data))(tmp_name r := None))(meta_path \<mapsto> data) = fs(meta_path \<mapsto> data)"
    using n by (auto simp: fun_eq_iff)
  then show ?thesis
    unfolding write_atomically_def mkstemp_some[OF assms] Let_def last_cons_prefixes os_replace_def
    by simp
qed

lemma dirname_tmp_name: "CHR ''/'' \<notin> set r \<Longrightarrow> dirname (tmp_name r) = ''pkl''"
proof -
  assume "CHR ''/'' \<notin> set r"
  then have "CHR ''/'' \<notin> set (''builtins_meta.json.'' @ r @ ''.tmp'')" by simp
  then have "rfind (CHR ''/'') (''pkl'' @ CHR ''/'' # (''builtins_meta.json.'' @ r @ ''.tmp'')) =
      int (length ''pkl'')"
    by (rule rfind_last)
  then have "rfind (CHR ''/'') (tmp_name r) = 3" by (simp add: tmp_name_def)
  then show ?thesis by (simp add: dirname_def tmp_name_def)
qed

lemma dirname_meta_path: "dirname meta_path = ''pkl''"
  by code_simp

lemma trace_meta:
  assumes "s \<in> set (fs # written_prefixes (fs(tmp_name r \<mapsto> [])) (tmp_name r) data k @ [last_fs])"
    and "last_fs meta_path = fs meta_path \<or> last_fs meta_path = Some data"
  shows "s meta_path = fs meta_path \<or> s meta_path = Some data"
proof -
  have "s' meta_path = fs meta_path"
    if "s' \<in> set (written_prefixes (fs(tmp_name r \<mapsto> [])) (tmp_name r) data k)" for s'
    using written_prefixes_other[OF that, of meta_path] tmp_name_not_meta[of r]
    by (simp add: fun_upd_def)
  with assms show ?thesis by auto
qed



lemma atomic_trace_facts:
  assumes r: "r \<in> set candidates" "fs (tmp_name r) = None"
    and ws: "ws = written_prefixes (fs(tmp_name r \<mapsto> [])) (tmp_name r) data k"
    and final: "final = fs \<or> final = fs(meta_path \<mapsto> data)"
  shows "\<forall>s\<in>set (fs # ws @ [final]). s meta_path = fs meta_path \<or> s meta_path = Some data"
    and "last (fs # ws @ [final]) = final"
    and "last (butlast (fs # ws @ [final])) = fs(tmp_name r \<mapsto> take k data)"
proof -
  have "final meta_path = fs meta_path \<or> final meta_path = Some data"
    using final by auto
  then have "s meta_path = fs meta_path \<or> s meta_path = Some data"
    if "s \<in> set (fs # ws @ [final])" for s
    using that unfolding ws by (rule trace_meta[rotated])
  then show "\<forall>s\<in>set (fs # ws @ [final]). s meta_path = fs meta_path \<or> s meta_path = Some data"
    by (rule ballI)
  show "last (fs # ws @ [final]) = final" by simp
  have "butlast (fs # ws @ [final]) = fs # ws" by (simp add: butlast_append)
  then show "last (butlast (fs # ws @ [final])) = fs(tmp_name r \<mapsto> take k data)"
    unfolding ws by (simp only: last_cons_prefixes fun_upd_upd)
qed

text \<open>
  C6.  Whatever happens during the final write, the metadata path holds, in every state the
  file system goes through, either what it held before or the whole new text.  The write
  succeeds exactly when nothing fails and \<^verbatim>\<open>mkstemp\<close> finds a free name; then the state before
  the last one holds the whole text in the temporary file, and the last state is the first
  one with the metadata path set to the text (the temporary file is gone).  When the write or
  the rename fails, the exception is the outcome and the last state is the first one: the
  temporary file is removed.  The temporary file is in the directory of the metadata path.
\<close>

theorem meta_write_atomic:
  "case write_atomically fs candidates flt data of (trace, res) \<Rightarrow>
     (\<forall>s\<in>set trace. s meta_path = fs meta_path \<or> s meta_path = Some data) \<and>
     (res = Inr () \<longleftrightarrow> flt = NoFault \<and> (\<exists>r\<in>set candidates. fs (tmp_name r) = None)) \<and>
     (res = Inr () \<longrightarrow>
        last trace = fs(meta_path \<mapsto> data) \<and>
        (\<exists>r\<in>set candidates. fs (tmp_name r) = None \<and>
           last (butlast trace) = fs(tmp_name r \<mapsto> data))) \<and>
     (\<forall>e. res = Inl e \<longrightarrow> last trace = fs) \<and>
     (\<forall>r. CHR ''/'' \<notin> set r \<longrightarrow> dirname (tmp_name r) = dirname meta_path)"
proof -
  have dir: "\<forall>r. CHR ''/'' \<notin> set r \<longrightarrow> dirname (tmp_name r) = dirname meta_path"
    by (simp add: dirname_tmp_name dirname_meta_path)
  show ?thesis
  proof (cases "find (\<lambda>r. fs (tmp_name r) = None) candidates")
    case None
    then have no: "\<not> (\<exists>r\<in>set candidates. fs (tmp_name r) = None)"
      by (simp add: find_None_iff)
    have c2: "(Inl OSError = (Inr () :: exn + unit)) \<longleftrightarrow>
        flt = NoFault \<and> (\<exists>r\<in>set candidates. fs (tmp_name r) = None)"
      using no by simp
    show ?thesis
      unfolding write_no_candidate[OF None] prod.case
      using c2 dir by simp
  next
    case (Some r)
    then have r: "r \<in> set candidates" "fs (tmp_name r) = None"
      by (auto simp: find_Some_iff in_set_conv_nth)
    have ex: "\<exists>r\<in>set candidates. fs (tmp_name r) = None" using r by blast
    show ?thesis
    proof (cases flt)
      case NoFault
      define ws where "ws = written_prefixes (fs(tmp_name r \<mapsto> [])) (tmp_name r) data (length data)"
      define final where "final = fs(meta_path \<mapsto> data)"
      have f: "final = fs \<or> final = fs(meta_path \<mapsto> data)" by (simp add: final_def)
      note facts = atomic_trace_facts[OF r ws_def f]
      have w: "write_atomically fs candidates NoFault data = (fs # ws @ [final], Inr ())"
        unfolding ws_def final_def by (rule write_ok[OF Some])
      have c3: "last (fs # ws @ [final]) = fs(meta_path \<mapsto> data) \<and>
          (\<exists>r\<in>set candidates. fs (tmp_name r) = None \<and>
             last (butlast (fs # ws @ [final])) = fs(tmp_name r \<mapsto> data))"
        using facts(2,3) r unfolding final_def by auto
      show ?thesis
        unfolding NoFault w prod.case
        using facts(1) ex c3 dir by blast
    next
      case (WriteFault k)
      define ws where "ws = written_prefixes (fs(tmp_name r \<mapsto> [])) (tmp_name r) data k"
      have f: "fs = fs \<or> fs = fs(meta_path \<mapsto> data)" by simp
      note facts = atomic_trace_facts[OF r ws_def f]
      have w: "write_atomically fs candidates (WriteFault k) data = (fs # ws @ [fs], Inl OSError)"
        unfolding ws_def by (rule write_fault[OF Some])
      show ?thesis
        unfolding WriteFault w prod.case
        using facts(1,2) dir by simp
    next
      case ReplaceFault
      define ws where "ws = written_prefixes (fs(tmp_name r \<mapsto> [])) (tmp_name r) data (length data)"
      have f: "fs = fs \<or> fs = fs(meta_path \<mapsto> data)" by simp
      note facts = atomic_trace_facts[OF r ws_def f]
      have w: "write_atomically fs candidates ReplaceFault data = (fs # ws @ [fs], Inl OSError)"
        unfolding ws_def by (rule replace_fault[OF Some])
      show ?thesis
        unfolding ReplaceFault w prod.case
        using facts(1,2) dir by simp
    qed
  qed
qed

theorem meta_write_atomic_witness:
  "snd (write_atomically example_fs [''k3x9q2ab''] NoFault ''[]\<newline>'') = Inr () \<and>
   last (fst (write_atomically example_fs [''k3x9q2ab''] NoFault ''[]\<newline>'')) meta_path =
     Some ''[]\<newline>'' \<and>
   last (fst (write_atomically example_fs [''k3x9q2ab''] NoFault ''[]\<newline>''))
     (tmp_name ''k3x9q2ab'') = None \<and>
   snd (write_atomically example_fs [''k3x9q2ab''] (WriteFault 1) ''[]\<newline>'') \<noteq> Inr () \<and>
   last (fst (write_atomically example_fs [''k3x9q2ab''] (WriteFault 1) ''[]\<newline>'')) meta_path =
     Some ''[1]''"
proof -
  let ?W = "write_atomically example_fs [''k3x9q2ab''] NoFault ''[]\<newline>''"
  let ?F = "write_atomically example_fs [''k3x9q2ab''] (WriteFault 1) ''[]\<newline>''"
  have free: "example_fs (tmp_name ''k3x9q2ab'') = None"
    by (simp add: example_fs_def tmp_name_def meta_path_def)
  then have ex: "\<exists>r\<in>set [''k3x9q2ab'']. example_fs (tmp_name r) = None" by simp
  have old: "example_fs meta_path = Some ''[1]''" by (simp add: example_fs_def)
  from meta_write_atomic[where fs = example_fs and candidates = "[''k3x9q2ab'']" and flt = NoFault
      and data = "''[]\<newline>''"]
  have ok: "snd ?W = Inr () \<longleftrightarrow>
              NoFault = NoFault \<and> (\<exists>r\<in>set [''k3x9q2ab'']. example_fs (tmp_name r) = None)"
    and fin: "snd ?W = Inr () \<longrightarrow> last (fst ?W) = example_fs(meta_path \<mapsto> ''[]\<newline>'')"
    unfolding case_prod_beta by blast+
  from ok ex have r: "snd ?W = Inr ()" by blast
  with fin have l: "last (fst ?W) = example_fs(meta_path \<mapsto> ''[]\<newline>'')" by blast
  have l1: "last (fst ?W) meta_path = Some ''[]\<newline>''" unfolding l by simp
  have l2: "last (fst ?W) (tmp_name ''k3x9q2ab'') = None"
    unfolding l using free tmp_name_not_meta[of "''k3x9q2ab''"] by simp
  from meta_write_atomic[where fs = example_fs and candidates = "[''k3x9q2ab'']"
      and flt = "WriteFault 1" and data = "''[]\<newline>''"]
  have bad: "snd ?F = Inr () \<longleftrightarrow>
              WriteFault 1 = NoFault \<and> (\<exists>r\<in>set [''k3x9q2ab'']. example_fs (tmp_name r) = None)"
    and restored: "\<forall>e. snd ?F = Inl e \<longrightarrow> last (fst ?F) = example_fs"
    unfolding case_prod_beta by blast+
  from bad have f1: "snd ?F \<noteq> Inr ()" by simp
  then obtain e where "snd ?F = Inl e" by (cases "snd ?F") auto
  with restored have "last (fst ?F) = example_fs" by blast
  with old have f2: "last (fst ?F) meta_path = Some ''[1]''" by simp
  from r l1 l2 f1 f2 show ?thesis by blast
qed


subsection \<open>The run\<close>

lemma write_succeeds:
  assumes "\<exists>r\<in>set candidates. fs (tmp_name r) = None"
  shows "snd (write_atomically fs candidates NoFault data) = Inr () \<and>
         last (fst (write_atomically fs candidates NoFault data)) = fs(meta_path \<mapsto> data)"
proof -
  from assms obtain r where "find (\<lambda>r. fs (tmp_name r) = None) candidates = Some r"
    by (cases "find (\<lambda>r. fs (tmp_name r) = None) candidates") (auto simp: find_None_iff)
  from write_ok[OF this] show ?thesis by simp
qed

lemma tmp_name_not_builtins: "tmp_name r \<noteq> builtins_path"
  by (simp add: tmp_name_def builtins_path_def)

lemma meta_not_builtins: "meta_path \<noteq> builtins_path"
  by (simp add: meta_path_def builtins_path_def)

lemma metadata_pass_succeeds:
  assumes "env_fault env = NoFault" and "\<exists>r\<in>set (env_candidates env). fs (tmp_name r) = None"
  shows "metadata_pass env fs =
     \<lparr>run_fs = fs(meta_path \<mapsto> meta_json_text (env_esc env)
                 (metadata_entries (env_loads env) (env_reflect env) (env_listing env))),
      run_stdout = [meta_path], run_result = Inr ()\<rparr>"
  using write_succeeds[OF assms(2)] by (simp add: metadata_pass_def Let_def assms(1))

lemma main_completed:
  "env_formatter env = Completed returncode output \<Longrightarrow>
   main env fs = metadata_pass env
     (fs(builtins_path \<mapsto> env_formatted env (builtins_pkl_text (env_listing env))))"
  by (simp add: main_def Let_def)

lemma metadata_pass_formatter:
  "metadata_pass (env\<lparr>env_formatter := x\<rparr>) fs = metadata_pass env fs"
  by (simp add: metadata_pass_def)

lemma no_fragments_entries:
  "filter is_fragment names = [] \<Longrightarrow> metadata_entries loads reflect names = []"
  by (simp add: metadata_entries_def glob_builtins_def)

lemma dump_no_entries: "meta_json_text esc [] = ''[]\<newline>''"
  by (simp add: meta_json_text_def)

text \<open>
  C7.  When no name of the directory is selected by the pattern, the text written to
  \<^verbatim>\<open>pkl/Builtins.pkl\<close> is the header and nothing else, and the text written for the metadata
  is \<^verbatim>\<open>[]\<close> and a newline; when the formatter returns and the final write does not fail, that
  is the content of \<^verbatim>\<open>pkl/builtins_meta.json\<close> after the run.
\<close>

theorem no_fragments_outputs:
  assumes "filter is_fragment (env_listing env) = []"
  shows "builtins_pkl_text (env_listing env) = HEADER \<and>
         meta_json_text (env_esc env)
           (metadata_entries (env_loads env) (env_reflect env) (env_listing env)) = ''[]\<newline>'' \<and>
         (\<forall>returncode output.
            env_formatter env = Completed returncode output \<and> env_fault env = NoFault \<and>
            (\<exists>r\<in>set (env_candidates env). fs (tmp_name r) = None) \<longrightarrow>
            run_fs (main env fs) builtins_path = Some (env_formatted env HEADER) \<and>
            run_fs (main env fs) meta_path = Some ''[]\<newline>'' \<and>
            run_result (main env fs) = Inr ())"
proof -
  have t: "builtins_pkl_text (env_listing env) = HEADER"
    using assms by (simp add: builtins_pkl_text_def glob_builtins_def)
  have m: "meta_json_text (env_esc env)
        (metadata_entries (env_loads env) (env_reflect env) (env_listing env)) = ''[]\<newline>''"
    by (simp only: no_fragments_entries[OF assms] dump_no_entries)
  have "run_fs (main env fs) builtins_path = Some (env_formatted env HEADER) \<and>
        run_fs (main env fs) meta_path = Some ''[]\<newline>'' \<and>
        run_result (main env fs) = Inr ()"
    if f: "env_formatter env = Completed returncode out" and n: "env_fault env = NoFault"
      and c: "\<exists>r\<in>set (env_candidates env). fs (tmp_name r) = None"
    for returncode out
  proof -
    let ?fs2 = "fs(builtins_path \<mapsto> env_formatted env (builtins_pkl_text (env_listing env)))"
    from c have c2: "\<exists>r\<in>set (env_candidates env). ?fs2 (tmp_name r) = None"
      by (simp add: tmp_name_not_builtins)
    have "main env fs =
        \<lparr>run_fs = ?fs2(meta_path \<mapsto> meta_json_text (env_esc env)
                   (metadata_entries (env_loads env) (env_reflect env) (env_listing env))),
         run_stdout = [meta_path], run_result = Inr ()\<rparr>"
      by (simp only: main_completed[OF f] metadata_pass_succeeds[OF n c2])
    then show ?thesis
      using meta_not_builtins by (simp add: m t)
  qed
  with t m show ?thesis by blast
qed


theorem no_fragments_outputs_witness:
  "filter is_fragment (env_listing example_env) = [] \<and>
   builtins_pkl_text (env_listing example_env) = HEADER \<and>
   example_fs meta_path = Some ''[1]'' \<and>
   run_fs (main example_env example_fs) meta_path = Some ''[]\<newline>'' \<and>
   run_result (main example_env example_fs) = Inr ()"
proof -
  have h: "filter is_fragment (env_listing example_env) = []" by code_simp
  have f: "env_formatter example_env = Completed 11 []" by (simp add: example_env_def)
  have n: "env_fault example_env = NoFault" by (simp add: example_env_def)
  have "example_fs (tmp_name ''k3x9q2ab'') = None"
    by (simp add: example_fs_def tmp_name_def meta_path_def)
  then have c: "\<exists>r\<in>set (env_candidates example_env). example_fs (tmp_name r) = None"
    by (simp add: example_env_def)
  have old: "example_fs meta_path = Some ''[1]''" by (simp add: example_fs_def)
  from no_fragments_outputs[OF h, where fs = example_fs] f n c
  have "builtins_pkl_text (env_listing example_env) = HEADER \<and>
        run_fs (main example_env example_fs) meta_path = Some ''[]\<newline>'' \<and>
        run_result (main example_env example_fs) = Inr ()"
    by blast
  with h old show ?thesis by blast
qed


text \<open>
  C8.  The run is the same whatever exit status and output the formatter run returns: after
  the formatter has returned, the run is the metadata pass, and when the final write does not
  fail it ends without an exception after printing the metadata path.
\<close>

theorem formatter_status_ignored:
  "main (env\<lparr>env_formatter := Completed returncode out\<rparr>) fs =
     main (env\<lparr>env_formatter := Completed 0 []\<rparr>) fs \<and>
   main (env\<lparr>env_formatter := Completed returncode out\<rparr>) fs =
     metadata_pass env
       (fs(builtins_path \<mapsto> env_formatted env (builtins_pkl_text (env_listing env)))) \<and>
   (env_fault env = NoFault \<and> (\<exists>r\<in>set (env_candidates env). fs (tmp_name r) = None) \<longrightarrow>
      run_result (main (env\<lparr>env_formatter := Completed returncode out\<rparr>) fs) = Inr () \<and>
      run_stdout (main (env\<lparr>env_formatter := Completed returncode out\<rparr>) fs) = [meta_path])"
proof -
  let ?fs2 = "fs(builtins_path \<mapsto> env_formatted env (builtins_pkl_text (env_listing env)))"
  have m: "main (env\<lparr>env_formatter := Completed rc out\<rparr>) fs = metadata_pass env ?fs2" for rc out
    by (simp add: main_def Let_def metadata_pass_formatter)
  have "run_result (metadata_pass env ?fs2) = Inr () \<and>
        run_stdout (metadata_pass env ?fs2) = [meta_path]"
    if n: "env_fault env = NoFault" and c: "\<exists>r\<in>set (env_candidates env). fs (tmp_name r) = None"
  proof -
    from c have c2: "\<exists>r\<in>set (env_candidates env). ?fs2 (tmp_name r) = None"
      by (simp add: tmp_name_not_builtins)
    show ?thesis
      unfolding metadata_pass_succeeds[OF n c2] by simp
  qed
  then show ?thesis
    unfolding m by blast
qed

theorem formatter_status_ignored_witness:
  "env_fault example_env = NoFault \<and>
   run_result (main (example_env\<lparr>env_formatter := Completed 11 []\<rparr>) example_fs) = Inr () \<and>
   run_stdout (main (example_env\<lparr>env_formatter := Completed 11 []\<rparr>) example_fs) = [meta_path]"
proof -
  have n: "env_fault example_env = NoFault" by (simp add: example_env_def)
  have "example_fs (tmp_name ''k3x9q2ab'') = None"
    by (simp add: example_fs_def tmp_name_def meta_path_def)
  then have c: "\<exists>r\<in>set (env_candidates example_env). example_fs (tmp_name r) = None"
    by (simp add: example_env_def)
  from formatter_status_ignored[where env = example_env and returncode = 11 and out = "[]"
      and fs = example_fs] n c
  show ?thesis by blast
qed

end
